theory Spec2Isabelle
  imports Complex_Main
begin

section \<open>MIDIRecorder.py: an always-on MIDI recorder with control chords\<close>

text \<open>
  The theory embeds the three parts of \<^verbatim>\<open>MIDIRecorder.py\<close>: the class \<^verbatim>\<open>Recorder\<close>
  (the recording session), the class \<^verbatim>\<open>ChordDetector\<close> and the callback
  \<^verbatim>\<open>on_msg\<close> of \<^verbatim>\<open>monitor_loop\<close>.

  Conventions of the embedding.
  \<^item> Python \<^verbatim>\<open>float\<close> seconds are exact numbers of type \<open>real\<close>: the arithmetic of
    the model has no rounding error, and \<^verbatim>\<open>0.150\<close> is exactly \<open>3/20\<close>.
  \<^item> \<^verbatim>\<open>self._now()\<close> reads \<^verbatim>\<open>time.monotonic()\<close>. A call of a public method is
    taken to happen at one instant: every clock reading inside one call yields the same
    value, which the caller of the model passes in (\<open>now\<close>).
  \<^item> Everything else a call takes from its surroundings is passed in with the clock
    reading, in a record \<open>env\<close>: the file name \<^verbatim>\<open>_new_filename()\<close> derives from the
    wall clock, and whether \<^verbatim>\<open>os.makedirs\<close>, \<^verbatim>\<open>MidiFile.save\<close> and
    \<^verbatim>\<open>os.replace\<close> succeed or raise.
  \<^item> An exception is a value \<open>Inl err\<close>. A method that raises has already changed some
    fields, so every method returns its result together with the state it leaves
    behind and the file-system operations it completed.
  \<^item> \<^verbatim>\<open>print\<close> calls and the lock \<^verbatim>\<open>self._lock\<close> have no counterpart: the model is
    sequential.
  \<^item> A leading underscore of a Python name is dropped (\<^verbatim>\<open>_close_with_delta\<close> is
    \<open>close_with_delta\<close>).
\<close>

subsection \<open>Configuration\<close>

definition IDLE_TIMEOUT_SECONDS :: real where
  "IDLE_TIMEOUT_SECONDS = 60"

definition TICKS_PER_BEAT :: int where
  "TICKS_PER_BEAT = 480"

definition DEFAULT_TEMPO_US_PER_BEAT :: int where
  "DEFAULT_TEMPO_US_PER_BEAT = 500000"

definition RECORDINGS_DIR :: string where
  "RECORDINGS_DIR = ''recordings''"

definition TRIGGER_SPLIT_NOTES :: "int set" where
  "TRIGGER_SPLIT_NOTES = {105, 107, 108}"

definition TRIGGER_PAUSE_NOTES :: "int set" where
  "TRIGGER_PAUSE_NOTES = {21, 23, 24}"

definition CHORD_WINDOW_SECONDS :: real where
  "CHORD_WINDOW_SECONDS = 3 / 20"

definition SUPPRESS_AFTER_TRIGGER_SECONDS :: real where
  "SUPPRESS_AFTER_TRIGGER_SECONDS = 2"

subsection \<open>Messages and errors\<close>

text \<open>
  A mido message, by its \<^verbatim>\<open>type\<close>. Only the attributes the program reads are kept:
  \<^verbatim>\<open>note\<close> and \<^verbatim>\<open>velocity\<close> of a note message (in this order), \<^verbatim>\<open>tempo\<close> of a
  tempo change. The
  \<^verbatim>\<open>time\<close> attribute is not part of the message: the recorder overwrites it
  (\<^verbatim>\<open>msg.copy(time=...)\<close>), so a track holds pairs of a message and its tick delta.
\<close>

datatype message =
    NoteOn int int
  | NoteOff int int
  | ControlChange int int
  | SetTempo int
  | TrackName string
  | EndOfTrack
  | OtherMessage string

type_synonym track = "(message \<times> int) list"

text \<open>The exceptions the program can raise. \<^verbatim>\<open>IOError\<close> is Python 3's \<^verbatim>\<open>OSError\<close>, what
  \<^verbatim>\<open>os.makedirs\<close>, \<^verbatim>\<open>MidiFile.save\<close> and \<^verbatim>\<open>os.replace\<close> raise.\<close>

datatype error = ZeroDivisionError | IOError | AttributeError | TypeError

text \<open>\<^verbatim>\<open>MidiFile(type=1, ticks_per_beat=TICKS_PER_BEAT)\<close>. Its one track is the object
  \<^verbatim>\<open>self.track\<close> also refers to, so the contents are kept once, in the field \<open>track\<close>.\<close>

record midifile =
  mtype :: int
  ticks_per_beat :: int

datatype fs_op =
    MakeDirs string
  | Save string midifile track
  | Replace string string

record env =
  now :: real
  new_filename :: string
  makedirs_ok :: bool
  save_ok :: bool
  replace_ok :: bool

subsection \<open>Recorder\<close>

record Recorder =
  mid :: "midifile option"
  track :: "track option"
  last_event_real :: "real option"
  current_tempo :: int
  filename :: "string option"

type_synonym 'a outcome = "(error + 'a) \<times> Recorder \<times> fs_op list"

definition init_recorder :: Recorder where
  "init_recorder = \<lparr>mid = None, track = None, last_event_real = None,
     current_tempo = DEFAULT_TEMPO_US_PER_BEAT, filename = None\<rparr>"

definition start :: "env \<Rightarrow> Recorder \<Rightarrow> unit outcome" where
  "start e r =
     (if mid r \<noteq> None then (Inr (), r, [])
      else if \<not> makedirs_ok e then (Inl IOError, r, [])
      else (Inr (),
            r\<lparr>mid := Some \<lparr>mtype = 1, ticks_per_beat = TICKS_PER_BEAT\<rparr>,
              track := Some [(SetTempo (current_tempo r), 0), (TrackName ''Live Recording'', 0)],
              last_event_real := Some (now e),
              filename := Some (new_filename e)\<rparr>,
            [MakeDirs RECORDINGS_DIR]))"

text \<open>Python's \<^verbatim>\<open>round\<close> of a float to an integer: to the nearest, a tie to the even
  neighbour.\<close>

definition py_round :: "real \<Rightarrow> int" where
  "py_round x =
     (let f = \<lfloor>x\<rfloor>; d = x - of_int f
      in if d < 1 / 2 then f
         else if 1 / 2 < d then f + 1
         else if even f then f else f + 1)"

text \<open>
  Modelled from the spec: \<^verbatim>\<open>mido.second2tick\<close> is a function of the mido library, which
  is not part of the repository. The spec gives what it computes:
  \<^verbatim>\<open>elapsed_seconds / (tempo_microseconds_per_beat / 1_000_000) * time_base\<close>,
  rounded by the caller. A Python division by zero raises \<^verbatim>\<open>ZeroDivisionError\<close>.
\<close>

definition second2tick :: "real \<Rightarrow> int \<Rightarrow> int \<Rightarrow> error + real" where
  "second2tick second tpb tempo =
     (if of_int tempo / (1000000 :: real) = 0 then Inl ZeroDivisionError
      else Inr (second / (of_int tempo / 1000000) * of_int tpb))"

definition seconds_to_ticks :: "Recorder \<Rightarrow> real \<Rightarrow> error + int" where
  "seconds_to_ticks r seconds =
     (case second2tick seconds TICKS_PER_BEAT (current_tempo r) of
        Inl err \<Rightarrow> Inl err
      | Inr x \<Rightarrow> Inr (max 0 (py_round x)))"

text \<open>\<^verbatim>\<open>_append_with_delta\<close> stores the clock reading first; the attribute
  \<^verbatim>\<open>self.track.append\<close> is looked up before its argument is evaluated.\<close>

definition append_with_delta :: "env \<Rightarrow> message \<Rightarrow> Recorder \<Rightarrow> (error + unit) \<times> Recorder" where
  "append_with_delta e msg r =
     (let delta_sec = (case last_event_real r of None \<Rightarrow> 0 | Some l \<Rightarrow> now e - l);
          r1 = r\<lparr>last_event_real := Some (now e)\<rparr>
      in case track r1 of
           None \<Rightarrow> (Inl AttributeError, r1)
         | Some tr \<Rightarrow>
             (case seconds_to_ticks r1 delta_sec of
                Inl err \<Rightarrow> (Inl err, r1)
              | Inr k \<Rightarrow> (Inr (), r1\<lparr>track := Some (tr @ [(msg, k)])\<rparr>)))"

definition feed :: "env \<Rightarrow> message \<Rightarrow> Recorder \<Rightarrow> unit outcome" where
  "feed e msg r =
     (case (if mid r = None then start e r else (Inr (), r, [])) of
        (Inl err, r0, fx) \<Rightarrow> (Inl err, r0, fx)
      | (Inr _, r0, fx) \<Rightarrow>
          (case msg of
             SetTempo t \<Rightarrow>
               (case append_with_delta e msg r0 of
                  (Inl err, r1) \<Rightarrow> (Inl err, r1, fx)
                | (Inr _, r1) \<Rightarrow> (Inr (), r1\<lparr>current_tempo := t\<rparr>, fx))
           | _ \<Rightarrow>
               (case append_with_delta e msg r0 of
                  (Inl err, r1) \<Rightarrow> (Inl err, r1, fx)
                | (Inr _, r1) \<Rightarrow> (Inr (), r1, fx))))"

definition time_since_last_event :: "env \<Rightarrow> Recorder \<Rightarrow> real option" where
  "time_since_last_event e r =
     (case last_event_real r of None \<Rightarrow> None | Some l \<Rightarrow> Some (now e - l))"

text \<open>The statements both close paths share, after the end-of-track marker is appended:
  the temporary name, \<^verbatim>\<open>self.mid.save(tmp)\<close>, \<^verbatim>\<open>os.replace(tmp, self.filename)\<close> and
  the reset of the five fields. A \<^verbatim>\<open>save\<close> that raises contributes no file operation.\<close>

definition save_and_reset :: "env \<Rightarrow> Recorder \<Rightarrow> unit outcome" where
  "save_and_reset e r =
     (case filename r of
        None \<Rightarrow> (Inl TypeError, r, [])
      | Some f \<Rightarrow>
          (let tmp = f @ ''.tmp'' in
           case (mid r, track r) of
             (Some m, Some tr) \<Rightarrow>
               if \<not> save_ok e then (Inl IOError, r, [])
               else if \<not> replace_ok e then (Inl IOError, r, [Save tmp m tr])
               else (Inr (),
                     r\<lparr>mid := None, track := None, last_event_real := None, filename := None,
                       current_tempo := DEFAULT_TEMPO_US_PER_BEAT\<rparr>,
                     [Save tmp m tr, Replace tmp f])
           | _ \<Rightarrow> (Inl AttributeError, r, [])))"

definition close_with_delta :: "env \<Rightarrow> real \<Rightarrow> Recorder \<Rightarrow> unit outcome" where
  "close_with_delta e elapsed r =
     (if mid r = None then (Inr (), r, [])
      else case track r of
             None \<Rightarrow> (Inl AttributeError, r, [])
           | Some tr \<Rightarrow>
               (case seconds_to_ticks r elapsed of
                  Inl err \<Rightarrow> (Inl err, r, [])
                | Inr k \<Rightarrow> save_and_reset e (r\<lparr>track := Some (tr @ [(EndOfTrack, k)])\<rparr>)))"

definition stop_if_idle :: "env \<Rightarrow> real \<Rightarrow> Recorder \<Rightarrow> bool outcome" where
  "stop_if_idle e idle_seconds r =
     (case (mid r, last_event_real r) of
        (Some m, Some l) \<Rightarrow>
          (let elapsed = now e - l in
           if elapsed < idle_seconds then (Inr False, r, [])
           else (case close_with_delta e elapsed r of
                   (Inl err, r', fx) \<Rightarrow> (Inl err, r', fx)
                 | (Inr _, r', fx) \<Rightarrow> (Inr True, r', fx)))
      | _ \<Rightarrow> (Inr False, r, []))"

definition split_now :: "env \<Rightarrow> Recorder \<Rightarrow> unit outcome" where
  "split_now e r =
     (if mid r = None then (Inr (), r, [])
      else (let elapsed = (case last_event_real r of None \<Rightarrow> 0 | Some l \<Rightarrow> now e - l)
            in close_with_delta e elapsed r))"

definition force_close :: "env \<Rightarrow> Recorder \<Rightarrow> unit outcome" where
  "force_close e r =
     (if mid r = None then (Inr (), r, [])
      else case track r of
             None \<Rightarrow> (Inl AttributeError, r, [])
           | Some tr \<Rightarrow> save_and_reset e (r\<lparr>track := Some (tr @ [(EndOfTrack, 0)])\<rparr>))"

subsection \<open>ChordDetector\<close>

text \<open>\<^verbatim>\<open>recent_on\<close> is a deque of (timestamp, note) pairs, oldest first;
  \<^verbatim>\<open>suppressed_until\<close> is a dict from a note to the time its suppression expires.\<close>

record ChordDetector =
  recent_on :: "(real \<times> int) list"
  suppressed_until :: "int \<rightharpoonup> real"

definition init_detector :: ChordDetector where
  "init_detector = \<lparr>recent_on = [], suppressed_until = Map.empty\<rparr>"

text \<open>The \<^verbatim>\<open>while\<close> loop of \<^verbatim>\<open>_clean_recent\<close> pops from the left as long as the
  oldest entry is older than the cutoff.\<close>

definition clean_recent :: "real \<Rightarrow> ChordDetector \<Rightarrow> ChordDetector" where
  "clean_recent t d =
     (let cutoff = t - CHORD_WINDOW_SECONDS
      in d\<lparr>recent_on := dropWhile (\<lambda>entry. fst entry < cutoff) (recent_on d)\<rparr>)"

definition clean_suppressed :: "real \<Rightarrow> ChordDetector \<Rightarrow> ChordDetector" where
  "clean_suppressed t d =
     d\<lparr>suppressed_until :=
         (\<lambda>n. case suppressed_until d n of
                None \<Rightarrow> None
              | Some u \<Rightarrow> if u \<le> t then None else Some u)\<rparr>"

definition arm_suppression :: "real \<Rightarrow> int set \<Rightarrow> ChordDetector \<Rightarrow> ChordDetector" where
  "arm_suppression t notes d =
     (let expiry = t + SUPPRESS_AFTER_TRIGGER_SECONDS
      in d\<lparr>suppressed_until :=
             (\<lambda>n. if n \<in> notes then Some expiry else suppressed_until d n)\<rparr>)"

text \<open>The three results of \<^verbatim>\<open>process\<close>: \<^verbatim>\<open>(do_split, toggle_pause, suppress_this_msg)\<close>.\<close>

type_synonym verdict = "bool \<times> bool \<times> bool"

definition do_split :: "verdict \<Rightarrow> bool" where
  "do_split v = fst v"

definition toggle_pause :: "verdict \<Rightarrow> bool" where
  "toggle_pause v = fst (snd v)"

definition suppress :: "verdict \<Rightarrow> bool" where
  "suppress v = snd (snd v)"

text \<open>\<^verbatim>\<open>msg.type in ('note_on', 'note_off') and hasattr(msg, 'note')\<close>, with the note.\<close>

fun note_of :: "message \<Rightarrow> int option" where
  "note_of (NoteOn n v) = Some n"
| "note_of (NoteOff n v) = Some n"
| "note_of _ = None"

text \<open>\<^verbatim>\<open>msg.type == 'note_on' and getattr(msg, 'velocity', 0) > 0\<close>, with the note.\<close>

fun struck_note :: "message \<Rightarrow> int option" where
  "struck_note (NoteOn n v) = (if 0 < v then Some n else None)"
| "struck_note _ = None"

definition process :: "real \<Rightarrow> message \<Rightarrow> ChordDetector \<Rightarrow> verdict \<times> ChordDetector" where
  "process t msg d =
     (let d1 = clean_suppressed t d in
      if (case note_of msg of None \<Rightarrow> False | Some n \<Rightarrow> suppressed_until d1 n \<noteq> None)
      then ((False, False, True), d1)
      else (case struck_note msg of
              None \<Rightarrow> ((False, False, False), d1)
            | Some n \<Rightarrow>
                (let d2 = clean_recent t d1;
                     d3 = d2\<lparr>recent_on := recent_on d2 @ [(t, n)]\<rparr>;
                     notes_seen = snd ` set (recent_on d3)
                 in if TRIGGER_SPLIT_NOTES \<subseteq> notes_seen
                    then ((True, False, True),
                          (arm_suppression t TRIGGER_SPLIT_NOTES d3)\<lparr>recent_on := []\<rparr>)
                    else if TRIGGER_PAUSE_NOTES \<subseteq> notes_seen
                    then ((False, True, True),
                          (arm_suppression t TRIGGER_PAUSE_NOTES d3)\<lparr>recent_on := []\<rparr>)
                    else ((False, False, False), d3))))"

text \<open>A detector fed a list of messages, each with the clock reading of its call: the
  verdicts in order, and the state left behind.\<close>

fun run_detector :: "ChordDetector \<Rightarrow> (real \<times> message) list \<Rightarrow> verdict list \<times> ChordDetector" where
  "run_detector d [] = ([], d)"
| "run_detector d ((t, msg) # evs) =
     (let (v, d') = process t msg d;
          (vs, d'') = run_detector d' evs
      in (v # vs, d''))"

subsection \<open>The callback of \<^verbatim>\<open>monitor_loop\<close> and the two loops\<close>

record orchestrator =
  recorder :: Recorder
  detector :: ChordDetector
  paused :: bool

definition init_orchestrator :: orchestrator where
  "init_orchestrator = \<lparr>recorder = init_recorder, detector = init_detector, paused = False\<rparr>"

text \<open>\<^verbatim>\<open>on_msg\<close>. An exception of \<^verbatim>\<open>split_now\<close> or \<^verbatim>\<open>feed\<close> leaves the callback at
  once: \<^verbatim>\<open>paused.set()\<close> is not reached.\<close>

definition on_msg :: "env \<Rightarrow> message \<Rightarrow> orchestrator \<Rightarrow> (error + unit) \<times> orchestrator \<times> fs_op list" where
  "on_msg e msg s =
     (let (v, d') = process (now e) msg (detector s);
          s1 = s\<lparr>detector := d'\<rparr>
      in if toggle_pause v then
           (if \<not> paused s1 then
              (case split_now e (recorder s1) of
                 (Inl err, r', fx) \<Rightarrow> (Inl err, s1\<lparr>recorder := r'\<rparr>, fx)
               | (Inr _, r', fx) \<Rightarrow> (Inr (), s1\<lparr>recorder := r', paused := True\<rparr>, fx))
            else (Inr (), s1\<lparr>paused := False\<rparr>, []))
         else if do_split v then
           (case split_now e (recorder s1) of (res, r', fx) \<Rightarrow> (res, s1\<lparr>recorder := r'\<rparr>, fx))
         else if suppress v then (Inr (), s1, [])
         else if paused s1 then (Inr (), s1, [])
         else (case feed e msg (recorder s1) of (res, r', fx) \<Rightarrow> (res, s1\<lparr>recorder := r'\<rparr>, fx)))"

text \<open>One round of \<^verbatim>\<open>idle_watchdog\<close>: the exception of \<^verbatim>\<open>stop_if_idle\<close> is caught and
  printed. One disconnect (or the shutdown): \<^verbatim>\<open>recorder.force_close()\<close>.\<close>

definition idle_watchdog :: "env \<Rightarrow> orchestrator \<Rightarrow> orchestrator \<times> fs_op list" where
  "idle_watchdog e s =
     (case stop_if_idle e IDLE_TIMEOUT_SECONDS (recorder s) of
        (res, r', fx) \<Rightarrow> (s\<lparr>recorder := r'\<rparr>, fx))"

definition disconnect :: "env \<Rightarrow> orchestrator \<Rightarrow> (error + unit) \<times> orchestrator \<times> fs_op list" where
  "disconnect e s =
     (case force_close e (recorder s) of (res, r', fx) \<Rightarrow> (res, s\<lparr>recorder := r'\<rparr>, fx))"

text \<open>The states the orchestrator reaches: by a message, a watchdog round or a
  disconnect, whether or not the step raised.\<close>

inductive reachable :: "orchestrator \<Rightarrow> bool" where
  reach_init: "reachable init_orchestrator"
| reach_msg: "reachable s \<Longrightarrow> reachable (fst (snd (on_msg e msg s)))"
| reach_watchdog: "reachable s \<Longrightarrow> reachable (fst (idle_watchdog e s))"
| reach_disconnect: "reachable s \<Longrightarrow> reachable (fst (snd (disconnect e s)))"

text \<open>The states a \<^verbatim>\<open>Recorder\<close> reaches by its public methods, whether or not a call
  raised. \<^verbatim>\<open>time_since_last_event\<close> changes nothing.\<close>

inductive recorder_reachable :: "Recorder \<Rightarrow> bool" where
  rr_init: "recorder_reachable init_recorder"
| rr_start: "recorder_reachable r \<Longrightarrow> recorder_reachable (fst (snd (start e r)))"
| rr_feed: "recorder_reachable r \<Longrightarrow> recorder_reachable (fst (snd (feed e msg r)))"
| rr_stop_if_idle:
    "recorder_reachable r \<Longrightarrow> recorder_reachable (fst (snd (stop_if_idle e idle_seconds r)))"
| rr_split_now: "recorder_reachable r \<Longrightarrow> recorder_reachable (fst (snd (split_now e r)))"
| rr_force_close: "recorder_reachable r \<Longrightarrow> recorder_reachable (fst (snd (force_close e r)))"

definition no_session :: "Recorder \<Rightarrow> bool" where
  "no_session r \<longleftrightarrow>
     mid r = None \<and> track r = None \<and> last_event_real r = None \<and> filename r = None"

definition open_session :: "Recorder \<Rightarrow> bool" where
  "open_session r \<longleftrightarrow>
     mid r \<noteq> None \<and> track r \<noteq> None \<and> last_event_real r \<noteq> None \<and> filename r \<noteq> None"

definition session_inv :: "Recorder \<Rightarrow> bool" where
  "session_inv r \<longleftrightarrow>
     (no_session r \<and> current_tempo r = DEFAULT_TEMPO_US_PER_BEAT) \<or> open_session r"

subsection \<open>Definitions for the statements\<close>

text \<open>The tick delta in the spec's words:
  \<^verbatim>\<open>round(elapsed_seconds / (tempo_microseconds_per_beat / 1_000_000) * time_base)\<close>,
  floored at zero, with the time base 480.\<close>

definition spec_ticks :: "int \<Rightarrow> real \<Rightarrow> int" where
  "spec_ticks tempo elapsed_seconds =
     max 0 (py_round (elapsed_seconds / (of_int tempo / 1000000) * 480))"

text \<open>A tick delta decoded back to seconds, in the spec's words:
  \<^verbatim>\<open>tick_delta * (tempo / 1_000_000) / 480\<close>.\<close>

definition ticks_to_seconds :: "int \<Rightarrow> int \<Rightarrow> real" where
  "ticks_to_seconds tempo k = of_int k * (of_int tempo / 1000000) / 480"

text \<open>\<^verbatim>\<open>msg.type == 'set_tempo' and hasattr(msg, 'tempo')\<close>.\<close>

fun is_tempo_change :: "message \<Rightarrow> bool" where
  "is_tempo_change (SetTempo t) = True"
| "is_tempo_change _ = False"

text \<open>A list of \<^verbatim>\<open>feed\<close> calls, each with its environment: the result of every call and
  the state after the last. A call that raises does not stop the later ones, as each
  comes from the callback on its own.\<close>

fun feed_all :: "Recorder \<Rightarrow> (env \<times> message) list \<Rightarrow> (error + unit) list \<times> Recorder" where
  "feed_all r [] = ([], r)"
| "feed_all r ((e, msg) # evs) =
     (case feed e msg r of
        (res, r', fx) \<Rightarrow> (case feed_all r' evs of (rs, r'') \<Rightarrow> (res # rs, r'')))"

text \<open>The real-time gaps of a list of calls: from \<open>t0\<close> to the first call, and from
  each call to the next.\<close>

fun delays :: "real \<Rightarrow> (env \<times> message) list \<Rightarrow> real list" where
  "delays t0 [] = []"
| "delays t0 ((e, msg) # evs) = (now e - t0) # delays (now e) evs"

text \<open>The five assignments after \<^verbatim>\<open># Reset\<close>.\<close>

definition reset :: "Recorder \<Rightarrow> Recorder" where
  "reset r = r\<lparr>mid := None, track := None, last_event_real := None, filename := None,
                current_tempo := DEFAULT_TEMPO_US_PER_BEAT\<rparr>"

definition write_ops :: "string \<Rightarrow> midifile \<Rightarrow> track \<Rightarrow> fs_op list" where
  "write_ops f m tr = [Save (f @ ''.tmp'') m tr, Replace (f @ ''.tmp'') f]"

text \<open>Environments and a recorder for the concrete runs: every file operation succeeds
  at clock reading \<open>t\<close>; the write fails; a session started at time 0.\<close>

definition env_at :: "real \<Rightarrow> env" where
  "env_at t = \<lparr>now = t, new_filename = ''recordings/REC20240101_000000.mid'',
     makedirs_ok = True, save_ok = True, replace_ok = True\<rparr>"

definition failing_env :: "real \<Rightarrow> env" where
  "failing_env t = (env_at t)\<lparr>save_ok := False\<rparr>"

definition open_recorder :: Recorder where
  "open_recorder = fst (snd (start (env_at 0) init_recorder))"

text \<open>Consecutive calls at least the chord window apart.\<close>

fun spaced :: "(real \<times> message) list \<Rightarrow> bool" where
  "spaced [] = True"
| "spaced [ev] = True"
| "spaced (ev # ev' # evs) = (fst ev + CHORD_WINDOW_SECONDS \<le> fst ev' \<and> spaced (ev' # evs))"

text \<open>A window of at most two entries, the older one strictly older, none later
  than \<open>t\<close>.\<close>

definition window_sparse :: "real \<Rightarrow> ChordDetector \<Rightarrow> bool" where
  "window_sparse t d =
     (case recent_on d of
        [] \<Rightarrow> True
      | [(s, n)] \<Rightarrow> s \<le> t
      | [(s, n), (s', n')] \<Rightarrow> s < s' \<and> s' \<le> t
      | _ \<Rightarrow> False)"





text \<open>The invariant of the orchestrator, and a run of the callback over a list of
  messages with their clock readings (every file operation succeeds).\<close>

definition orch_inv :: "orchestrator \<Rightarrow> bool" where
  "orch_inv s \<longleftrightarrow> session_inv (recorder s) \<and> (paused s \<longrightarrow> mid (recorder s) = None)"

definition play :: "orchestrator \<Rightarrow> (real \<times> message) list \<Rightarrow> orchestrator" where
  "play s evs = fold (\<lambda>ev s. fst (snd (on_msg (env_at (fst ev)) (snd ev) s))) evs s"

text \<open>A note is recorded, then the pause chord is played.\<close>

definition paused_example :: orchestrator where
  "paused_example = play init_orchestrator
     [(0, NoteOn 60 100), (1, NoteOn 21 64), (101 / 100, NoteOn 23 64), (51 / 50, NoteOn 24 64)]"

section \<open>Properties\<close>

subsection \<open>Seconds to ticks\<close>

lemma py_round_bounds: "\<bar>of_int (py_round x) - x\<bar> \<le> 1 / 2"
  unfolding py_round_def Let_def by (auto; linarith)

lemma py_round_nonpos: "x \<le> 0 \<Longrightarrow> py_round x \<le> 0"
  unfolding py_round_def Let_def by auto

lemma seconds_to_ticks_eq:
  "seconds_to_ticks r x =
     (if current_tempo r = 0 then Inl ZeroDivisionError
      else Inr (spec_ticks (current_tempo r) x))"
  by (simp add: seconds_to_ticks_def second2tick_def TICKS_PER_BEAT_def spec_ticks_def)

text \<open>
  Claim C6, as the spec states it, for every tempo value: the tick delta is
  \<^verbatim>\<open>max(0, round(elapsed / (tempo / 1_000_000) * 480))\<close> and the computation never
  fails. It fails at the tempo 0, which a recorder takes from a tempo-change message
  as it comes: the division raises \<^verbatim>\<open>ZeroDivisionError\<close> and no tick delta exists.
\<close>

theorem C6_zero_tempo_raises:
  "seconds_to_ticks (fst (snd (feed (env_at 0) (SetTempo 0) init_recorder))) (- 1)
     = Inl ZeroDivisionError"
  by (simp add: feed_def start_def init_recorder_def env_at_def append_with_delta_def
      seconds_to_ticks_eq spec_ticks_def py_round_def DEFAULT_TEMPO_US_PER_BEAT_def)

text \<open>
  Claim C6, amended: for every elapsed time and every tempo other than 0, the tick
  delta of \<^verbatim>\<open>_seconds_to_ticks\<close> is
  \<^verbatim>\<open>max(0, round(elapsed / (tempo / 1_000_000) * 480))\<close>, a non-negative integer; for a
  positive tempo a negative elapsed time gives the tick delta 0.
\<close>

theorem C6_tick_delta_formula:
  "current_tempo r \<noteq> 0 \<Longrightarrow>
     seconds_to_ticks r elapsed =
       Inr (max 0 (py_round (elapsed / (of_int (current_tempo r) / 1000000) * 480)))
     \<and> (\<forall>k. seconds_to_ticks r elapsed = Inr k \<longrightarrow> 0 \<le> k)
     \<and> (0 < current_tempo r \<and> elapsed < 0 \<longrightarrow> seconds_to_ticks r elapsed = Inr 0)"
proof -
  assume nz: "current_tempo r \<noteq> 0"
  have a: "seconds_to_ticks r elapsed =
       Inr (max 0 (py_round (elapsed / (of_int (current_tempo r) / 1000000) * 480)))"
    using nz by (simp add: seconds_to_ticks_eq spec_ticks_def)
  have b: "\<forall>k. seconds_to_ticks r elapsed = Inr k \<longrightarrow> 0 \<le> k"
    by (auto simp: seconds_to_ticks_eq spec_ticks_def split: if_splits)
  have c: "seconds_to_ticks r elapsed = Inr 0" if "0 < current_tempo r" "elapsed < 0"
  proof -
    have "elapsed / (of_int (current_tempo r) / 1000000) * 480 \<le> 0"
      using that by (simp add: divide_nonpos_pos mult_le_0_iff)
    then have "py_round (elapsed / (of_int (current_tempo r) / 1000000) * 480) \<le> 0"
      by (rule py_round_nonpos)
    then show ?thesis using a by simp
  qed
  show ?thesis using a b c by blast
qed

theorem C6_tick_delta_formula_witness:
  "current_tempo init_recorder \<noteq> 0
   \<and> seconds_to_ticks init_recorder (1 / 1000) = Inr 1
   \<and> seconds_to_ticks init_recorder (- 1) = Inr 0"
  using C6_tick_delta_formula [of init_recorder "1 / 1000"]
    C6_tick_delta_formula [of init_recorder "- 1"]
  by (simp add: init_recorder_def DEFAULT_TEMPO_US_PER_BEAT_def py_round_def)

lemma spec_ticks_examples:
  "spec_ticks 500000 0 = 0" "spec_ticks 500000 1 = 960" "spec_ticks 500000 2 = 1920"
  "spec_ticks 500000 (1 / 4) = 240" "spec_ticks 1000000 1 = 480"
  by (simp_all add: spec_ticks_def py_round_def)

lemma open_recorder_eq:
  "open_recorder = \<lparr>mid = Some \<lparr>mtype = 1, ticks_per_beat = 480\<rparr>,
     track = Some [(SetTempo 500000, 0), (TrackName ''Live Recording'', 0)],
     last_event_real = Some 0, current_tempo = 500000,
     filename = Some ''recordings/REC20240101_000000.mid''\<rparr>"
  by (simp add: open_recorder_def start_def init_recorder_def env_at_def
      DEFAULT_TEMPO_US_PER_BEAT_def TICKS_PER_BEAT_def)

subsection \<open>The session invariant\<close>

lemma init_inv: "session_inv init_recorder"
  by (simp add: session_inv_def no_session_def init_recorder_def)

lemma start_inv: "session_inv r \<Longrightarrow> session_inv (fst (snd (start e r)))"
  by (auto simp: session_inv_def no_session_def open_session_def start_def)

lemma open_start: "mid r = None \<Longrightarrow> makedirs_ok e \<Longrightarrow> open_session (fst (snd (start e r)))"
  by (simp add: start_def open_session_def)

lemma append_inv: "open_session r \<Longrightarrow> open_session (snd (append_with_delta e msg r))"
  by (auto simp: open_session_def append_with_delta_def Let_def split: option.splits sum.splits)

text \<open>The state \<^verbatim>\<open>feed\<close> leaves: untouched when \<^verbatim>\<open>start\<close> raised, else what
  \<^verbatim>\<open>_append_with_delta\<close> left, with the new tempo when the append returned.\<close>

lemma feed_state:
  "fst (snd (feed e msg r)) =
     (let r0 = (if mid r = None then fst (snd (start e r)) else r) in
      if mid r = None \<and> \<not> makedirs_ok e then r
      else case append_with_delta e msg r0 of
             (Inl err, r1) \<Rightarrow> r1
           | (Inr u, r1) \<Rightarrow> (case msg of SetTempo t \<Rightarrow> r1\<lparr>current_tempo := t\<rparr> | _ \<Rightarrow> r1))"
  by (cases msg) (auto simp: feed_def start_def Let_def split: prod.splits sum.splits)

lemma feed_inv: "session_inv r \<Longrightarrow> session_inv (fst (snd (feed e msg r)))"
proof -
  assume inv: "session_inv r"
  show ?thesis
  proof (cases "mid r = None \<and> \<not> makedirs_ok e")
    case True
    then show ?thesis using inv by (simp add: feed_state)
  next
    case False
    define r0 where "r0 = (if mid r = None then fst (snd (start e r)) else r)"
    have o0: "open_session r0"
      using inv False open_start[of r e]
      by (auto simp: r0_def session_inv_def no_session_def)
    obtain res r1 where a: "append_with_delta e msg r0 = (res, r1)"
      by (cases "append_with_delta e msg r0")
    have o1: "open_session r1"
      using append_inv[OF o0, of e msg] a by simp
    then have o2: "open_session (r1\<lparr>current_tempo := t\<rparr>)" for t
      by (simp add: open_session_def)
    have "open_session (fst (snd (feed e msg r)))"
      using False a o1 o2 unfolding feed_state r0_def[symmetric] Let_def
      by (auto split: sum.splits message.splits)
    then show ?thesis by (simp add: session_inv_def)
  qed
qed

lemma save_and_reset_inv: "open_session r \<Longrightarrow> session_inv (fst (snd (save_and_reset e r)))"
  by (auto simp: session_inv_def no_session_def open_session_def save_and_reset_def Let_def
      split: option.splits)

lemma close_inv: "session_inv r \<Longrightarrow> session_inv (fst (snd (close_with_delta e x r)))"
proof -
  assume inv: "session_inv r"
  show ?thesis
  proof (cases "mid r = None")
    case True
    then show ?thesis using inv by (simp add: close_with_delta_def)
  next
    case False
    then have o: "open_session r" using inv by (auto simp: session_inv_def no_session_def)
    then obtain tr where tr: "track r = Some tr" by (auto simp: open_session_def)
    have o': "open_session (r\<lparr>track := Some (tr @ [(EndOfTrack, k)])\<rparr>)" for k
      using o by (simp add: open_session_def)
    show ?thesis
      using False tr inv save_and_reset_inv[OF o']
      by (auto simp: close_with_delta_def split: sum.splits)
  qed
qed

lemma stop_if_idle_inv: "session_inv r \<Longrightarrow> session_inv (fst (snd (stop_if_idle e idle r)))"
  using close_inv[of r e "now e - the (last_event_real r)"]
  by (auto simp: stop_if_idle_def Let_def split: option.splits prod.splits sum.splits)

lemma split_now_inv: "session_inv r \<Longrightarrow> session_inv (fst (snd (split_now e r)))"
  using close_inv[of r e] by (auto simp: split_now_def Let_def split: option.splits)

lemma force_close_inv: "session_inv r \<Longrightarrow> session_inv (fst (snd (force_close e r)))"
proof -
  assume inv: "session_inv r"
  show ?thesis
  proof (cases "mid r = None")
    case True
    then show ?thesis using inv by (simp add: force_close_def)
  next
    case False
    then have o: "open_session r" using inv by (auto simp: session_inv_def no_session_def)
    then obtain tr where tr: "track r = Some tr" by (auto simp: open_session_def)
    have o': "open_session (r\<lparr>track := Some (tr @ [(EndOfTrack, 0)])\<rparr>)"
      using o by (simp add: open_session_def)
    show ?thesis
      using False tr save_and_reset_inv[OF o'] by (auto simp: force_close_def)
  qed
qed

lemma reachable_session_inv: "recorder_reachable r \<Longrightarrow> session_inv r"
  by (induction rule: recorder_reachable.induct)
    (simp_all add: init_inv start_inv feed_inv stop_if_idle_inv split_now_inv force_close_inv)

text \<open>
  Claim C10: in every state a \<^verbatim>\<open>Recorder\<close> reaches by its public methods (whether or
  not a call raised), the fields \<^verbatim>\<open>mid\<close>, \<^verbatim>\<open>track\<close>, \<^verbatim>\<open>last_event_real\<close> and
  \<^verbatim>\<open>filename\<close> are all \<^verbatim>\<open>None\<close> or all set, and when they are \<^verbatim>\<open>None\<close> the tempo
  is the default 500000; and each method keeps this, from any state that has it.
  \<^verbatim>\<open>time_since_last_event\<close> returns a value and assigns nothing.
\<close>

theorem C10_session_fields_invariant:
  "(recorder_reachable r \<longrightarrow> session_inv r)
   \<and> (session_inv r' \<longrightarrow>
        session_inv (fst (snd (start e r')))
      \<and> session_inv (fst (snd (feed e msg r')))
      \<and> session_inv (fst (snd (stop_if_idle e idle_seconds r')))
      \<and> session_inv (fst (snd (split_now e r')))
      \<and> session_inv (fst (snd (force_close e r'))))"
  using reachable_session_inv start_inv feed_inv stop_if_idle_inv split_now_inv force_close_inv
  by blast

theorem C10_session_fields_invariant_witness:
  "recorder_reachable (fst (snd (feed (env_at 1) (NoteOn 60 100) init_recorder)))
   \<and> session_inv (fst (snd (feed (env_at 1) (NoteOn 60 100) init_recorder)))
   \<and> open_session (fst (snd (feed (env_at 1) (NoteOn 60 100) init_recorder)))
   \<and> session_inv init_recorder
   \<and> session_inv (fst (snd (force_close (env_at 2) init_recorder)))"
proof -
  have r: "recorder_reachable (fst (snd (feed (env_at 1) (NoteOn 60 100) init_recorder)))"
    by (rule rr_feed [OF rr_init])
  have o: "open_session (fst (snd (feed (env_at 1) (NoteOn 60 100) init_recorder)))"
    by (simp add: feed_def start_def init_recorder_def env_at_def append_with_delta_def
        seconds_to_ticks_eq open_session_def DEFAULT_TEMPO_US_PER_BEAT_def)
  have i: "session_inv init_recorder"
    using C10_session_fields_invariant [of init_recorder] rr_init by simp
  show ?thesis
    using C10_session_fields_invariant
      [of "fst (snd (feed (env_at 1) (NoteOn 60 100) init_recorder))" init_recorder
        "env_at 2" "NoteOn 60 100" 0] r o i
    by simp
qed

subsection \<open>Feeding an open session\<close>

lemma append_with_delta_open:
  "track r = Some tr \<Longrightarrow> last_event_real r = Some l \<Longrightarrow> current_tempo r \<noteq> 0 \<Longrightarrow>
   append_with_delta e msg r =
     (Inr (), r\<lparr>last_event_real := Some (now e),
                track := Some (tr @ [(msg, spec_ticks (current_tempo r) (now e - l))])\<rparr>)"
  by (simp add: append_with_delta_def seconds_to_ticks_eq)

lemma feed_open_other:
  "mid r = Some m \<Longrightarrow> track r = Some tr \<Longrightarrow> last_event_real r = Some l \<Longrightarrow>
   current_tempo r \<noteq> 0 \<Longrightarrow> \<not> is_tempo_change msg \<Longrightarrow>
   feed e msg r =
     (Inr (), r\<lparr>last_event_real := Some (now e),
                track := Some (tr @ [(msg, spec_ticks (current_tempo r) (now e - l))])\<rparr>, [])"
  by (cases msg) (simp_all add: feed_def append_with_delta_open)

lemma feed_open_fields:
  assumes "mid r = Some m" "track r = Some tr" "last_event_real r = Some l"
    "current_tempo r \<noteq> 0"
  shows "fst (feed e msg r) = Inr ()"
    and "mid (fst (snd (feed e msg r))) = Some m"
    and "filename (fst (snd (feed e msg r))) = filename r"
    and "track (fst (snd (feed e msg r)))
           = Some (tr @ [(msg, spec_ticks (current_tempo r) (now e - l))])"
    and "snd (snd (feed e msg r)) = []"
  using assms by (cases msg; simp add: feed_def append_with_delta_open)+

lemma feed_all_open:
  "mid r = Some m \<Longrightarrow> track r = Some tr \<Longrightarrow> last_event_real r = Some l \<Longrightarrow>
   current_tempo r \<noteq> 0 \<Longrightarrow> \<forall>ev \<in> set evs. \<not> is_tempo_change (snd ev) \<Longrightarrow>
   feed_all r evs =
     (replicate (length evs) (Inr ()),
      r\<lparr>last_event_real := Some (last (l # map (\<lambda>ev. now (fst ev)) evs)),
        track := Some (tr @ map2 (\<lambda>ev d. (snd ev, spec_ticks (current_tempo r) d)) evs
                              (delays l evs))\<rparr>)"
proof (induction evs arbitrary: r tr l)
  case Nil
  then show ?case by simp
next
  case (Cons ev evs)
  obtain e msg where ev: "ev = (e, msg)" by (cases ev)
  let ?r' = "r\<lparr>last_event_real := Some (now e),
                track := Some (tr @ [(msg, spec_ticks (current_tempo r) (now e - l))])\<rparr>"
  have f: "feed e msg r = (Inr (), ?r', [])"
    using Cons.prems ev by (simp add: feed_open_other)
  have ih: "feed_all ?r' evs =
     (replicate (length evs) (Inr ()),
      ?r'\<lparr>last_event_real := Some (last (now e # map (\<lambda>ev. now (fst ev)) evs)),
        track := Some ((tr @ [(msg, spec_ticks (current_tempo r) (now e - l))]) @
           map2 (\<lambda>ev d. (snd ev, spec_ticks (current_tempo ?r') d)) evs (delays (now e) evs))\<rparr>)"
    using Cons.prems by (intro Cons.IH) simp_all
  show ?case using f ih ev by simp
qed

lemma feed_all_open_zip:
  assumes "mid r = Some m" "track r = Some tr" "last_event_real r = Some l"
    "current_tempo r \<noteq> 0" "\<forall>ev \<in> set evs. \<not> is_tempo_change (snd ev)"
  shows "fst (feed_all r evs) = replicate (length evs) (Inr ())"
    and "track (snd (feed_all r evs)) =
           Some (tr @ zip (map snd evs) (map (spec_ticks (current_tempo r)) (delays l evs)))"
proof -
  have z: "map2 (\<lambda>ev d. (snd ev, spec_ticks (current_tempo r) d)) evs (delays l evs)
         = zip (map snd evs) (map (spec_ticks (current_tempo r)) (delays l evs))"
    by (simp add: zip_map_map)
  note fa = feed_all_open[OF assms]
  show "fst (feed_all r evs) = replicate (length evs) (Inr ())" by (simp add: fa)
  show "track (snd (feed_all r evs)) =
           Some (tr @ zip (map snd evs) (map (spec_ticks (current_tempo r)) (delays l evs)))"
    by (simp add: fa z)
qed

text \<open>
  Claim C2, as the spec states it, for every open session: a tempo change is appended
  with the delta of the old tempo, then the tempo is updated, and later deltas use
  the new tempo. A session takes the tempo 0 from a tempo change as it comes. The
  next message, here another tempo change, then finds the tempo 0: the conversion
  raises, nothing is appended, and the tempo stays 0.
\<close>

theorem C2_zero_tempo_blocks_tempo_change:
  "feed (env_at 1) (SetTempo 0) open_recorder =
     (Inr (),
      \<lparr>mid = Some \<lparr>mtype = 1, ticks_per_beat = 480\<rparr>,
       track = Some [(SetTempo 500000, 0), (TrackName ''Live Recording'', 0), (SetTempo 0, 960)],
       last_event_real = Some 1, current_tempo = 0,
       filename = Some ''recordings/REC20240101_000000.mid''\<rparr>, [])
   \<and> feed (env_at 2) (SetTempo 500000) (fst (snd (feed (env_at 1) (SetTempo 0) open_recorder))) =
     (Inl ZeroDivisionError,
      \<lparr>mid = Some \<lparr>mtype = 1, ticks_per_beat = 480\<rparr>,
       track = Some [(SetTempo 500000, 0), (TrackName ''Live Recording'', 0), (SetTempo 0, 960)],
       last_event_real = Some 2, current_tempo = 0,
       filename = Some ''recordings/REC20240101_000000.mid''\<rparr>, [])"
  by (simp add: open_recorder_eq feed_def append_with_delta_def seconds_to_ticks_eq env_at_def
      spec_ticks_examples)

text \<open>
  Claim C2, amended: \<^verbatim>\<open>feed\<close> of a tempo change on an open session whose tempo is
  not 0 appends the message with the tick delta computed from the tempo in effect
  before it, and sets the session's tempo to the message's only after the append; the
  entries appended before stay as they are (the old track is a prefix of the new);
  and when the new tempo is not 0 either, the tick deltas of the messages fed
  afterwards (none of them a tempo change) are computed with the new tempo.
\<close>

theorem C2_tempo_change_applies_forward:
  assumes "mid r = Some m" "track r = Some tr" "last_event_real r = Some l"
    and "current_tempo r \<noteq> 0"
  shows "feed e (SetTempo t) r =
           (Inr (),
            r\<lparr>last_event_real := Some (now e),
              track := Some (tr @ [(SetTempo t, spec_ticks (current_tempo r) (now e - l))]),
              current_tempo := t\<rparr>, [])
       \<and> (t \<noteq> 0 \<and> (\<forall>ev \<in> set evs. \<not> is_tempo_change (snd ev)) \<longrightarrow>
            track (snd (feed_all (fst (snd (feed e (SetTempo t) r))) evs)) =
              Some (tr @ [(SetTempo t, spec_ticks (current_tempo r) (now e - l))]
                    @ zip (map snd evs) (map (spec_ticks t) (delays (now e) evs))))"
proof -
  have a: "feed e (SetTempo t) r =
           (Inr (),
            r\<lparr>last_event_real := Some (now e),
              track := Some (tr @ [(SetTempo t, spec_ticks (current_tempo r) (now e - l))]),
              current_tempo := t\<rparr>, [])"
    using assms by (simp add: feed_def append_with_delta_def seconds_to_ticks_eq)
  have b: "track (snd (feed_all (fst (snd (feed e (SetTempo t) r))) evs)) =
              Some (tr @ [(SetTempo t, spec_ticks (current_tempo r) (now e - l))]
                    @ zip (map snd evs) (map (spec_ticks t) (delays (now e) evs)))"
    if h: "t \<noteq> 0" "\<forall>ev \<in> set evs. \<not> is_tempo_change (snd ev)"
  proof -
    let ?r' = "r\<lparr>last_event_real := Some (now e),
                    track := Some (tr @ [(SetTempo t, spec_ticks (current_tempo r) (now e - l))]),
                    current_tempo := t\<rparr>"
    have s: "fst (snd (feed e (SetTempo t) r)) = ?r'" using a by simp
    have "track (snd (feed_all ?r' evs)) =
        Some ((tr @ [(SetTempo t, spec_ticks (current_tempo r) (now e - l))])
              @ zip (map snd evs) (map (spec_ticks (current_tempo ?r')) (delays (now e) evs)))"
      using assms(1) h by (intro feed_all_open_zip(2)) simp_all
    then show ?thesis unfolding s by simp
  qed
  show ?thesis using a b by blast
qed

theorem C2_tempo_change_applies_forward_witness:
  "feed (env_at 1) (SetTempo 1000000) open_recorder =
     (Inr (), open_recorder\<lparr>last_event_real := Some 1,
        track := Some [(SetTempo 500000, 0), (TrackName ''Live Recording'', 0),
                       (SetTempo 1000000, 960)],
        current_tempo := 1000000\<rparr>, [])
   \<and> track (snd (feed_all (fst (snd (feed (env_at 1) (SetTempo 1000000) open_recorder)))
        [(env_at 2, NoteOn 60 100)])) =
       Some [(SetTempo 500000, 0), (TrackName ''Live Recording'', 0), (SetTempo 1000000, 960),
             (NoteOn 60 100, 480)]"
proof -
  have h: "mid open_recorder = Some \<lparr>mtype = 1, ticks_per_beat = 480\<rparr>"
    "track open_recorder = Some [(SetTempo 500000, 0), (TrackName ''Live Recording'', 0)]"
    "last_event_real open_recorder = Some 0" "current_tempo open_recorder \<noteq> 0"
    by (simp_all add: open_recorder_eq)
  note c2 = C2_tempo_change_applies_forward
    [OF h, of "env_at 1" 1000000 "[(env_at 2, NoteOn 60 100)]"]
  have t: "current_tempo open_recorder = 500000" "now (env_at 1) = 1" "now (env_at 2) = 2"
    by (simp_all add: open_recorder_eq env_at_def)
  have a: "feed (env_at 1) (SetTempo 1000000) open_recorder =
     (Inr (), open_recorder\<lparr>last_event_real := Some 1,
        track := Some [(SetTempo 500000, 0), (TrackName ''Live Recording'', 0),
                       (SetTempo 1000000, 960)],
        current_tempo := 1000000\<rparr>, [])"
    using c2 by (simp add: t spec_ticks_examples h)
  have b: "track (snd (feed_all (fst (snd (feed (env_at 1) (SetTempo 1000000) open_recorder)))
        [(env_at 2, NoteOn 60 100)])) =
       Some [(SetTempo 500000, 0), (TrackName ''Live Recording'', 0), (SetTempo 1000000, 960),
             (NoteOn 60 100, 480)]"
    using conjunct2 [OF c2] by (simp add: t spec_ticks_examples del: feed_all.simps)
  show ?thesis using a b by simp
qed

subsection \<open>Round trip of the delays\<close>

lemma roundtrip_half_tick:
  assumes "0 < tempo" "0 \<le> d"
  shows "\<bar>ticks_to_seconds tempo (spec_ticks tempo d) - d\<bar> \<le> ticks_to_seconds tempo 1 / 2"
proof -
  define c where "c = of_int tempo / (1000000 :: real)"
  have cpos: "0 < c" using assms by (simp add: c_def)
  define x where "x = d / c * 480"
  have x0: "0 \<le> x" using assms cpos by (simp add: x_def)
  have b: "\<bar>of_int (py_round x) - x\<bar> \<le> 1 / 2" by (rule py_round_bounds)
  have "- 1 / 2 \<le> (of_int (py_round x) :: real)" using b x0 by linarith
  then have "0 \<le> py_round x" by linarith
  then have st: "spec_ticks tempo d = py_round x"
    by (simp add: spec_ticks_def x_def c_def)
  have dx: "d = x * c / 480" using cpos by (simp add: x_def)
  have "ticks_to_seconds tempo (spec_ticks tempo d) - d = (of_int (py_round x) - x) * (c / 480)"
    unfolding st ticks_to_seconds_def c_def[symmetric] using dx by (simp add: algebra_simps)
  then have "\<bar>ticks_to_seconds tempo (spec_ticks tempo d) - d\<bar>
      = \<bar>(of_int (py_round x) - x) * (c / 480)\<bar>"
    by (rule arg_cong)
  also have "\<dots> = \<bar>of_int (py_round x) - x\<bar> * (c / 480)"
    using cpos by (simp add: abs_mult)
  also have "\<dots> \<le> 1 / 2 * (c / 480)"
    using b cpos by (intro mult_right_mono) simp_all
  also have "\<dots> = ticks_to_seconds tempo 1 / 2"
    by (simp add: ticks_to_seconds_def c_def)
  finally show ?thesis .
qed

lemma roundtrip_one_tick:
  assumes "0 < tempo" "0 \<le> d"
  shows "\<bar>ticks_to_seconds tempo (spec_ticks tempo d) - d\<bar> \<le> ticks_to_seconds tempo 1"
proof -
  have "0 \<le> ticks_to_seconds tempo 1" using assms by (simp add: ticks_to_seconds_def)
  then show ?thesis using roundtrip_half_tick[OF assms] by linarith
qed

text \<open>
  Claim C7, as the spec states it, for every session: the recorded tick deltas decode
  to the delays. In a session whose tempo is 0 (taken from a tempo change), two notes
  fed one second apart record nothing: both calls raise and the track stays as it
  was, so no delay can be decoded from it.
\<close>

theorem C7_zero_tempo_records_nothing:
  "feed_all (fst (snd (feed (env_at 1) (SetTempo 0) open_recorder)))
     [(env_at 2, NoteOn 60 100), (env_at 3, NoteOff 60 0)] =
     ([Inl ZeroDivisionError, Inl ZeroDivisionError],
      \<lparr>mid = Some \<lparr>mtype = 1, ticks_per_beat = 480\<rparr>,
       track = Some [(SetTempo 500000, 0), (TrackName ''Live Recording'', 0), (SetTempo 0, 960)],
       last_event_real = Some 3, current_tempo = 0,
       filename = Some ''recordings/REC20240101_000000.mid''\<rparr>)"
  by (simp add: open_recorder_eq feed_def append_with_delta_def seconds_to_ticks_eq env_at_def
      spec_ticks_examples)

text \<open>
  Claim C7, amended: an open session whose tempo is positive is fed messages none of
  which is a tempo change, with non-negative gaps between the calls (the first gap
  counts from the session's last event, or from its start). Then no call raises, the
  track holds the messages in order after what it held, each with the tick delta of
  its gap at the session's tempo, and every tick delta decoded back to seconds
  (\<^verbatim>\<open>tick_delta * (tempo / 1_000_000) / 480\<close>) is within one tick's worth of seconds
  of the gap.
\<close>

theorem C7_delays_round_trip:
  assumes "mid r = Some m" "track r = Some tr" "last_event_real r = Some l"
    and "0 < current_tempo r"
    and "\<forall>ev \<in> set evs. \<not> is_tempo_change (snd ev)"
    and "\<forall>d \<in> set (delays l evs). 0 \<le> d"
  shows "fst (feed_all r evs) = replicate (length evs) (Inr ())
       \<and> track (snd (feed_all r evs)) =
           Some (tr @ zip (map snd evs) (map (spec_ticks (current_tempo r)) (delays l evs)))
       \<and> (\<forall>d \<in> set (delays l evs).
             \<bar>ticks_to_seconds (current_tempo r) (spec_ticks (current_tempo r) d) - d\<bar>
               \<le> ticks_to_seconds (current_tempo r) 1)"
proof -
  have nz: "current_tempo r \<noteq> 0" using assms(4) by simp
  note fa = feed_all_open_zip[OF assms(1) assms(2) assms(3) nz assms(5)]
  have rt: "\<forall>d \<in> set (delays l evs).
             \<bar>ticks_to_seconds (current_tempo r) (spec_ticks (current_tempo r) d) - d\<bar>
               \<le> ticks_to_seconds (current_tempo r) 1"
    using assms(6) roundtrip_one_tick[OF assms(4)] by blast
  show ?thesis using fa rt by simp
qed

theorem C7_delays_round_trip_witness:
  "track (snd (feed_all open_recorder
        [(env_at (1 / 4), NoteOn 60 100), (env_at (5 / 4), NoteOff 60 0)])) =
       Some [(SetTempo 500000, 0), (TrackName ''Live Recording'', 0),
             (NoteOn 60 100, 240), (NoteOff 60 0, 960)]
   \<and> \<bar>ticks_to_seconds 500000 240 - 1 / 4\<bar> \<le> ticks_to_seconds 500000 1"
proof -
  have h: "mid open_recorder = Some \<lparr>mtype = 1, ticks_per_beat = 480\<rparr>"
    "track open_recorder = Some [(SetTempo 500000, 0), (TrackName ''Live Recording'', 0)]"
    "last_event_real open_recorder = Some 0" "0 < current_tempo open_recorder"
    by (simp_all add: open_recorder_eq)
  have t: "current_tempo open_recorder = 500000" by (simp add: open_recorder_eq)
  from C7_delays_round_trip
    [OF h, of "[(env_at (1 / 4), NoteOn 60 100), (env_at (5 / 4), NoteOff 60 0)]"]
  show ?thesis
    by (simp add: t env_at_def spec_ticks_examples del: feed_all.simps)
qed

subsection \<open>Closing a session\<close>

lemma save_and_reset_eq:
  "mid r = Some m \<Longrightarrow> track r = Some tr \<Longrightarrow> filename r = Some f \<Longrightarrow>
   save_and_reset e r =
     (if \<not> save_ok e then (Inl IOError, r, [])
      else if \<not> replace_ok e then (Inl IOError, r, [Save (f @ ''.tmp'') m tr])
      else (Inr (), reset r, write_ops f m tr))"
  by (simp add: save_and_reset_def reset_def write_ops_def Let_def)

lemma force_close_open:
  "mid r = Some m \<Longrightarrow> track r = Some tr \<Longrightarrow> filename r = Some f \<Longrightarrow>
   force_close e r =
     (if \<not> save_ok e then (Inl IOError, r\<lparr>track := Some (tr @ [(EndOfTrack, 0)])\<rparr>, [])
      else if \<not> replace_ok e
      then (Inl IOError, r\<lparr>track := Some (tr @ [(EndOfTrack, 0)])\<rparr>,
            [Save (f @ ''.tmp'') m (tr @ [(EndOfTrack, 0)])])
      else (Inr (), reset r, write_ops f m (tr @ [(EndOfTrack, 0)])))"
  by (simp add: force_close_def save_and_reset_eq reset_def)

lemma close_with_delta_open:
  "mid r = Some m \<Longrightarrow> track r = Some tr \<Longrightarrow> filename r = Some f \<Longrightarrow>
   current_tempo r \<noteq> 0 \<Longrightarrow>
   close_with_delta e x r =
     (let tr' = tr @ [(EndOfTrack, spec_ticks (current_tempo r) x)] in
      if \<not> save_ok e then (Inl IOError, r\<lparr>track := Some tr'\<rparr>, [])
      else if \<not> replace_ok e
      then (Inl IOError, r\<lparr>track := Some tr'\<rparr>, [Save (f @ ''.tmp'') m tr'])
      else (Inr (), reset r, write_ops f m tr'))"
  by (simp add: close_with_delta_def seconds_to_ticks_eq save_and_reset_eq reset_def Let_def)

lemma split_now_open:
  "mid r = Some m \<Longrightarrow> last_event_real r = Some l \<Longrightarrow>
   split_now e r = close_with_delta e (now e - l) r"
  by (simp add: split_now_def)

lemma stop_if_idle_open:
  "mid r = Some m \<Longrightarrow> last_event_real r = Some l \<Longrightarrow> idle \<le> now e - l \<Longrightarrow>
   stop_if_idle e idle r =
     (case close_with_delta e (now e - l) r of
        (Inl err, r', fx) \<Rightarrow> (Inl err, r', fx)
      | (Inr u, r', fx) \<Rightarrow> (Inr True, r', fx))"
  by (simp add: stop_if_idle_def Let_def)

lemma feed_open_any:
  assumes "mid r = Some m" "track r = Some tr" "last_event_real r = Some l"
  shows "mid (fst (snd (feed e msg r))) = Some m"
    and "filename (fst (snd (feed e msg r))) = filename r"
    and "track (fst (snd (feed e msg r))) =
           (if current_tempo r = 0 then Some tr
            else Some (tr @ [(msg, spec_ticks (current_tempo r) (now e - l))]))"
proof -
  have a: "append_with_delta e msg r =
     (if current_tempo r = 0 then (Inl ZeroDivisionError, r\<lparr>last_event_real := Some (now e)\<rparr>)
      else (Inr (), r\<lparr>last_event_real := Some (now e),
                track := Some (tr @ [(msg, spec_ticks (current_tempo r) (now e - l))])\<rparr>))"
    using assms by (simp add: append_with_delta_def seconds_to_ticks_eq)
  have st: "fst (snd (feed e msg r)) =
     (case append_with_delta e msg r of
             (Inl err, r1) \<Rightarrow> r1
           | (Inr u, r1) \<Rightarrow> (case msg of SetTempo t \<Rightarrow> r1\<lparr>current_tempo := t\<rparr> | _ \<Rightarrow> r1))"
    using assms(1) by (simp add: feed_state)
  show "mid (fst (snd (feed e msg r))) = Some m"
    unfolding st a using assms by (cases msg) simp_all
  show "filename (fst (snd (feed e msg r))) = filename r"
    unfolding st a using assms by (cases msg) simp_all
  show "track (fst (snd (feed e msg r))) =
           (if current_tempo r = 0 then Some tr
            else Some (tr @ [(msg, spec_ticks (current_tempo r) (now e - l))]))"
    unfolding st a using assms by (cases msg) simp_all
qed

text \<open>
  Claim C3, as the spec states it: when the file write raises during a close, the
  session state is reset all the same and the next \<^verbatim>\<open>feed\<close> starts a new session. On
  a session started at time 0 whose \<^verbatim>\<open>save\<close> fails at time 1, \<^verbatim>\<open>force_close\<close> raises
  and the session is still there; the message fed at time 2 goes into the old track,
  after the end-of-track marker, under the old file name.
\<close>

theorem C3_failed_write_leaves_session_open:
  "fst (force_close (failing_env 1) open_recorder) = Inl IOError
   \<and> \<not> no_session (fst (snd (force_close (failing_env 1) open_recorder)))
   \<and> filename (fst (snd (feed ((env_at 2)\<lparr>new_filename := ''recordings/REC20240101_000002.mid''\<rparr>)
        (NoteOn 60 100) (fst (snd (force_close (failing_env 1) open_recorder))))))
       = Some ''recordings/REC20240101_000000.mid''
   \<and> track (fst (snd (feed ((env_at 2)\<lparr>new_filename := ''recordings/REC20240101_000002.mid''\<rparr>)
        (NoteOn 60 100) (fst (snd (force_close (failing_env 1) open_recorder))))))
       = Some [(SetTempo 500000, 0), (TrackName ''Live Recording'', 0), (EndOfTrack, 0),
               (NoteOn 60 100, 1920)]"
  by (simp add: open_recorder_eq force_close_def save_and_reset_def failing_env_def env_at_def
      no_session_def feed_def append_with_delta_def seconds_to_ticks_eq spec_ticks_examples)

text \<open>
  Claim C3, amended. On an open session, \<^verbatim>\<open>force_close\<close> reaches the file write
  always, \<^verbatim>\<open>split_now\<close> and \<^verbatim>\<open>stop_if_idle\<close> (past its threshold) reach it when the
  session's tempo is not 0, so that their trailing delta is computed. When the write
  succeeds the state is reset. When \<^verbatim>\<open>save\<close> or \<^verbatim>\<open>os.replace\<close> raises, the exception
  leaves the method before the reset: the call returns the error and the session
  stays open, with the end-of-track marker already appended (delta 0 by
  \<^verbatim>\<open>force_close\<close>, the trailing delta by the other two). The next \<^verbatim>\<open>feed\<close> on a state
  so left, whatever the marker's delta \<open>k\<close>, starts no new session: \<^verbatim>\<open>mid\<close> and the file
  name stay, and the message is appended to the same track after the marker, or,
  when the session's tempo is 0, nothing is appended (the call raises).
\<close>

theorem C3_reset_only_after_successful_write:
  assumes "mid r = Some m" "track r = Some tr" "last_event_real r = Some l"
    "filename r = Some f"
  shows "(save_ok e \<and> replace_ok e \<longrightarrow>
            fst (snd (force_close e r)) = reset r
          \<and> (current_tempo r \<noteq> 0 \<longrightarrow>
                fst (snd (split_now e r)) = reset r
              \<and> (idle \<le> now e - l \<longrightarrow> fst (snd (stop_if_idle e idle r)) = reset r)))
       \<and> (\<not> (save_ok e \<and> replace_ok e) \<longrightarrow>
            fst (force_close e r) = Inl IOError
          \<and> fst (snd (force_close e r)) = r\<lparr>track := Some (tr @ [(EndOfTrack, 0)])\<rparr>
          \<and> (current_tempo r \<noteq> 0 \<longrightarrow>
                fst (split_now e r) = Inl IOError
              \<and> fst (snd (split_now e r))
                  = r\<lparr>track := Some (tr @ [(EndOfTrack, spec_ticks (current_tempo r) (now e - l))])\<rparr>
              \<and> (idle \<le> now e - l \<longrightarrow>
                    fst (stop_if_idle e idle r) = Inl IOError
                  \<and> fst (snd (stop_if_idle e idle r))
                      = r\<lparr>track := Some (tr @ [(EndOfTrack, spec_ticks (current_tempo r) (now e - l))])\<rparr>)))
       \<and> mid (fst (snd (feed e' msg (r\<lparr>track := Some (tr @ [(EndOfTrack, k)])\<rparr>)))) = Some m
       \<and> filename (fst (snd (feed e' msg (r\<lparr>track := Some (tr @ [(EndOfTrack, k)])\<rparr>)))) = Some f
       \<and> track (fst (snd (feed e' msg (r\<lparr>track := Some (tr @ [(EndOfTrack, k)])\<rparr>)))) =
           (if current_tempo r = 0 then Some (tr @ [(EndOfTrack, k)])
            else Some (tr @ [(EndOfTrack, k), (msg, spec_ticks (current_tempo r) (now e' - l))]))"
proof -
  define kd where "kd = spec_ticks (current_tempo r) (now e - l)"
  have fc: "force_close e r =
     (if \<not> save_ok e then (Inl IOError, r\<lparr>track := Some (tr @ [(EndOfTrack, 0)])\<rparr>, [])
      else if \<not> replace_ok e
      then (Inl IOError, r\<lparr>track := Some (tr @ [(EndOfTrack, 0)])\<rparr>,
            [Save (f @ ''.tmp'') m (tr @ [(EndOfTrack, 0)])])
      else (Inr (), reset r, write_ops f m (tr @ [(EndOfTrack, 0)])))"
    using assms by (intro force_close_open)
  have cw: "close_with_delta e (now e - l) r =
     (if \<not> save_ok e then (Inl IOError, r\<lparr>track := Some (tr @ [(EndOfTrack, kd)])\<rparr>, [])
      else if \<not> replace_ok e
      then (Inl IOError, r\<lparr>track := Some (tr @ [(EndOfTrack, kd)])\<rparr>,
            [Save (f @ ''.tmp'') m (tr @ [(EndOfTrack, kd)])])
      else (Inr (), reset r, write_ops f m (tr @ [(EndOfTrack, kd)])))"
    if "current_tempo r \<noteq> 0"
    using assms that by (simp add: close_with_delta_open kd_def Let_def)
  have sn: "split_now e r = close_with_delta e (now e - l) r"
    using assms by (intro split_now_open)
  have si: "idle \<le> now e - l \<Longrightarrow> stop_if_idle e idle r =
     (case close_with_delta e (now e - l) r of
        (Inl err, r', fx) \<Rightarrow> (Inl err, r', fx)
      | (Inr u, r', fx) \<Rightarrow> (Inr True, r', fx))"
    using assms by (intro stop_if_idle_open)
  let ?r' = "r\<lparr>track := Some (tr @ [(EndOfTrack, k)])\<rparr>"
  have o: "mid ?r' = Some m" "track ?r' = Some (tr @ [(EndOfTrack, k)])"
    "last_event_real ?r' = Some l"
    using assms by simp_all
  have f0: "mid (fst (snd (feed e' msg ?r'))) = Some m"
    by (rule feed_open_any(1)[OF o])
  have f1: "filename (fst (snd (feed e' msg ?r'))) = Some f"
    using feed_open_any(2)[OF o, of e' msg] assms(4) by simp
  have f2: "track (fst (snd (feed e' msg ?r'))) =
           (if current_tempo r = 0 then Some (tr @ [(EndOfTrack, k)])
            else Some (tr @ [(EndOfTrack, k), (msg, spec_ticks (current_tempo r) (now e' - l))]))"
    using feed_open_any(3)[OF o, of e' msg] by simp
  have ok: "save_ok e \<and> replace_ok e \<longrightarrow>
            fst (snd (force_close e r)) = reset r
          \<and> (current_tempo r \<noteq> 0 \<longrightarrow>
                fst (snd (split_now e r)) = reset r
              \<and> (idle \<le> now e - l \<longrightarrow> fst (snd (stop_if_idle e idle r)) = reset r))"
    by (simp add: fc sn cw si)
  have bad: "\<not> (save_ok e \<and> replace_ok e) \<longrightarrow>
            fst (force_close e r) = Inl IOError
          \<and> fst (snd (force_close e r)) = r\<lparr>track := Some (tr @ [(EndOfTrack, 0)])\<rparr>
          \<and> (current_tempo r \<noteq> 0 \<longrightarrow>
                fst (split_now e r) = Inl IOError
              \<and> fst (snd (split_now e r)) = r\<lparr>track := Some (tr @ [(EndOfTrack, kd)])\<rparr>
              \<and> (idle \<le> now e - l \<longrightarrow>
                    fst (stop_if_idle e idle r) = Inl IOError
                  \<and> fst (snd (stop_if_idle e idle r)) = r\<lparr>track := Some (tr @ [(EndOfTrack, kd)])\<rparr>))"
    by (simp add: fc sn cw si)
  show ?thesis using ok bad f0 f1 f2 unfolding kd_def by blast
qed

theorem C3_reset_only_after_successful_write_witness:
  "fst (split_now (failing_env 1) open_recorder) = Inl IOError
   \<and> fst (snd (split_now (failing_env 1) open_recorder))
       = open_recorder\<lparr>track := Some [(SetTempo 500000, 0), (TrackName ''Live Recording'', 0),
                                      (EndOfTrack, 960)]\<rparr>
   \<and> fst (snd (split_now (env_at 1) open_recorder)) = init_recorder"
proof -
  have h: "mid open_recorder = Some \<lparr>mtype = 1, ticks_per_beat = 480\<rparr>"
    "track open_recorder = Some [(SetTempo 500000, 0), (TrackName ''Live Recording'', 0)]"
    "last_event_real open_recorder = Some 0"
    "filename open_recorder = Some ''recordings/REC20240101_000000.mid''"
    by (simp_all add: open_recorder_eq)
  have t: "current_tempo open_recorder = 500000" by (simp add: open_recorder_eq)
  from C3_reset_only_after_successful_write [OF h, of "failing_env 1" 0 "env_at 2" "NoteOn 60 100" 0]
    C3_reset_only_after_successful_write [OF h, of "env_at 1" 0 "env_at 2" "NoteOn 60 100" 0]
  show ?thesis
    by (simp add: t failing_env_def env_at_def spec_ticks_examples)
      (simp add: open_recorder_eq reset_def init_recorder_def DEFAULT_TEMPO_US_PER_BEAT_def)
qed

lemma force_close_no_session: "mid r = None \<Longrightarrow> force_close e r = (Inr (), r, [])"
  by (simp add: force_close_def)

lemma force_close_Inr:
  assumes "force_close e r = (Inr u, r1, fx)"
  shows "mid r1 = None"
    and "mid r \<noteq> None \<Longrightarrow> r1 = reset r \<and>
      (\<exists>m tr f. mid r = Some m \<and> track r = Some tr \<and> filename r = Some f \<and>
          fx = write_ops f m (tr @ [(EndOfTrack, 0)]))"
  using assms
  by (auto simp: force_close_def save_and_reset_def reset_def write_ops_def Let_def
      split: if_splits option.splits)

text \<open>
  Claim C8, as the spec states it, for any two calls in a row: the first finalizes
  and resets, the second is a no-op. When the \<^verbatim>\<open>save\<close> of the first call raises, the
  session stays open with its marker appended, and the second call is no no-op: it
  appends a second end-of-track marker, writes the file and resets the state.
\<close>

theorem C8_second_call_after_failed_write:
  "fst (force_close (failing_env 1) open_recorder) = Inl IOError
   \<and> force_close (env_at 2) (fst (snd (force_close (failing_env 1) open_recorder)))
     = (Inr (), init_recorder,
        [Save ''recordings/REC20240101_000000.mid.tmp'' \<lparr>mtype = 1, ticks_per_beat = 480\<rparr>
           [(SetTempo 500000, 0), (TrackName ''Live Recording'', 0), (EndOfTrack, 0),
            (EndOfTrack, 0)],
         Replace ''recordings/REC20240101_000000.mid.tmp'' ''recordings/REC20240101_000000.mid''])"
  by (simp add: open_recorder_eq force_close_def save_and_reset_def failing_env_def env_at_def
      init_recorder_def DEFAULT_TEMPO_US_PER_BEAT_def Let_def)

text \<open>
  Claim C8, amended: when a first \<^verbatim>\<open>force_close\<close> returns without raising (its write
  succeeded, or there was no session), a second one right after it is a no-op: it
  returns without error, leaves the state as it is and performs no file operation,
  because \<^verbatim>\<open>mid\<close> is \<^verbatim>\<open>None\<close>. On an open session the first call has appended the
  end-of-track marker with delta 0, saved the file under the temporary name, renamed
  it, and reset the state to no session.
\<close>

theorem C8_force_close_twice:
  assumes "force_close e1 r = (Inr u, r1, fx1)"
  shows "force_close e2 r1 = (Inr (), r1, [])
       \<and> (mid r \<noteq> None \<longrightarrow>
            no_session r1 \<and> current_tempo r1 = DEFAULT_TEMPO_US_PER_BEAT
          \<and> (\<exists>m tr f. mid r = Some m \<and> track r = Some tr \<and> filename r = Some f
               \<and> fx1 = [Save (f @ ''.tmp'') m (tr @ [(EndOfTrack, 0)]),
                        Replace (f @ ''.tmp'') f]))"
proof -
  have a: "force_close e2 r1 = (Inr (), r1, [])"
    using force_close_Inr(1)[OF assms] by (rule force_close_no_session)
  have b: "no_session r1 \<and> current_tempo r1 = DEFAULT_TEMPO_US_PER_BEAT
          \<and> (\<exists>m tr f. mid r = Some m \<and> track r = Some tr \<and> filename r = Some f
               \<and> fx1 = [Save (f @ ''.tmp'') m (tr @ [(EndOfTrack, 0)]),
                        Replace (f @ ''.tmp'') f])" if "mid r \<noteq> None"
    using force_close_Inr(2)[OF assms that]
    by (auto simp: reset_def no_session_def write_ops_def)
  show ?thesis using a b by blast
qed

theorem C8_force_close_twice_witness:
  "force_close (env_at 1) open_recorder
     = (Inr (), init_recorder,
        [Save ''recordings/REC20240101_000000.mid.tmp'' \<lparr>mtype = 1, ticks_per_beat = 480\<rparr>
           [(SetTempo 500000, 0), (TrackName ''Live Recording'', 0), (EndOfTrack, 0)],
         Replace ''recordings/REC20240101_000000.mid.tmp'' ''recordings/REC20240101_000000.mid''])
   \<and> force_close (env_at 2) init_recorder = (Inr (), init_recorder, [])"
proof -
  have fc: "force_close (env_at 1) open_recorder
     = (Inr (), init_recorder,
        [Save ''recordings/REC20240101_000000.mid.tmp'' \<lparr>mtype = 1, ticks_per_beat = 480\<rparr>
           [(SetTempo 500000, 0), (TrackName ''Live Recording'', 0), (EndOfTrack, 0)],
         Replace ''recordings/REC20240101_000000.mid.tmp'' ''recordings/REC20240101_000000.mid''])"
    by (simp add: open_recorder_eq force_close_def save_and_reset_def env_at_def init_recorder_def
        DEFAULT_TEMPO_US_PER_BEAT_def Let_def)
  from C8_force_close_twice [OF fc, of "env_at 2"] fc show ?thesis by simp
qed

subsection \<open>The chord detector\<close>

lemmas detector_defs = init_detector_def process_def clean_suppressed_def clean_recent_def
  arm_suppression_def TRIGGER_SPLIT_NOTES_def TRIGGER_PAUSE_NOTES_def CHORD_WINDOW_SECONDS_def
  SUPPRESS_AFTER_TRIGGER_SECONDS_def Let_def

lemma sparse_step:
  assumes "window_sparse t d" "t + CHORD_WINDOW_SECONDS \<le> t'" "struck_note msg = Some n"
  shows "\<not> do_split (fst (process t' msg d))"
    and "\<not> toggle_pause (fst (process t' msg d))" 
    and "window_sparse t' (snd (process t' msg d))"
proof -
  have w: "0 < CHORD_WINDOW_SECONDS" by (simp add: CHORD_WINDOW_SECONDS_def)
  consider (a) "recent_on d = []" | (b) s m where "recent_on d = [(s, m)]" "s \<le> t"
    | (c) s m s' m' where "recent_on d = [(s, m), (s', m')]" "s < s'" "s' \<le> t"
    using assms(1) by (auto simp: window_sparse_def split: list.splits)
  then have "\<not> do_split (fst (process t' msg d)) \<and> \<not> toggle_pause (fst (process t' msg d)) 
      \<and> window_sparse t' (snd (process t' msg d))"
  proof cases
    case a
    then show ?thesis using assms(2,3) w
      by (auto simp: process_def clean_suppressed_def clean_recent_def Let_def do_split_def toggle_pause_def
          window_sparse_def TRIGGER_SPLIT_NOTES_def TRIGGER_PAUSE_NOTES_def split: option.splits)
  next
    case b
    then show ?thesis using assms(2,3) w
      by (auto simp: process_def clean_suppressed_def clean_recent_def Let_def do_split_def toggle_pause_def
          window_sparse_def TRIGGER_SPLIT_NOTES_def TRIGGER_PAUSE_NOTES_def split: option.splits)
  next
    case c
    then show ?thesis using assms(2,3) w
      by (auto simp: process_def clean_suppressed_def clean_recent_def Let_def do_split_def toggle_pause_def
          window_sparse_def TRIGGER_SPLIT_NOTES_def TRIGGER_PAUSE_NOTES_def split: option.splits)
  qed
  then show "\<not> do_split (fst (process t' msg d))"
    and "\<not> toggle_pause (fst (process t' msg d))" 
    and "window_sparse t' (snd (process t' msg d))" by simp_all
qed

lemma sparse_run:
  "window_sparse t d \<Longrightarrow> spaced ((t, m0) # evs) \<Longrightarrow> \<forall>ev \<in> set evs. struck_note (snd ev) \<noteq> None \<Longrightarrow>
   \<forall>v \<in> set (fst (run_detector d evs)). \<not> do_split v \<and> \<not> toggle_pause v"
proof (induction evs arbitrary: t d m0)
  case Nil
  then show ?case by simp
next
  case (Cons ev evs)
  obtain t' msg where ev: "ev = (t', msg)" by (cases ev)
  obtain n where n: "struck_note msg = Some n" using Cons.prems(3) ev by auto
  have sp: "t + CHORD_WINDOW_SECONDS \<le> t'" "spaced ((t', msg) # evs)"
    using Cons.prems(2) ev by simp_all
  note st = sparse_step[OF Cons.prems(1) sp(1) n]
  have ih: "\<forall>v \<in> set (fst (run_detector (snd (process t' msg d)) evs)). \<not> do_split v \<and> \<not> toggle_pause v"
    using Cons.IH[OF st(3) sp(2)] Cons.prems(3) by simp
  show ?case using st(1,2) ih ev by (simp add: split_beta)
qed

text \<open>
  Claim C5: a detector with an empty window (as at start) is fed note-ons of positive
  velocity, each call at least 150 ms after the one before. Then no call returns the
  split action, whatever the notes are: the prune leaves at most the one entry that
  is exactly 150 ms old, so the window never holds three notes.
\<close>

theorem C5_spaced_notes_never_split:
  assumes "recent_on d = []" "spaced evs" "\<forall>ev \<in> set evs. struck_note (snd ev) \<noteq> None"
  shows "\<forall>v \<in> set (fst (run_detector d evs)). \<not> do_split v"
proof -
  have ws: "window_sparse t d" for t using assms(1) by (simp add: window_sparse_def)
  have "spaced ((t, m0) # evs)" if "evs = [] \<or> t + CHORD_WINDOW_SECONDS \<le> fst (hd evs)" for t m0
    using that assms(2) by (cases evs) auto
  then have "spaced ((fst (hd evs) - CHORD_WINDOW_SECONDS, NoteOn 0 0) # evs)" by simp
  from sparse_run[OF ws this assms(3)] show ?thesis by blast
qed

theorem C5_spaced_notes_never_split_witness:
  "fst (run_detector init_detector
     [(0, NoteOn 105 64), (3 / 20, NoteOn 107 64), (3 / 10, NoteOn 108 64)])
    = [(False, False, False), (False, False, False), (False, False, False)]"
  using C5_spaced_notes_never_split
    [of init_detector "[(0, NoteOn 105 64), (3 / 20, NoteOn 107 64), (3 / 10, NoteOn 108 64)]"]
  by (simp add: detector_defs del: not_None_eq)




















subsection \<open>The orchestrator\<close>

lemma split_now_no_session: "mid r = None \<Longrightarrow> split_now e r = (Inr (), r, [])"
  by (simp add: split_now_def)

lemma stop_if_idle_no_session: "mid r = None \<Longrightarrow> stop_if_idle e idle r = (Inr False, r, [])"
  by (simp add: stop_if_idle_def)

lemma save_and_reset_Inr: "save_and_reset e r = (Inr u, r', fx) \<Longrightarrow> mid r' = None"
  by (auto simp: save_and_reset_def Let_def split: option.splits if_splits)

lemma close_with_delta_Inr: "close_with_delta e x r = (Inr u, r', fx) \<Longrightarrow> mid r' = None"
  by (auto simp: close_with_delta_def split: option.splits if_splits sum.splits
      dest: save_and_reset_Inr)

lemma split_now_Inr: "split_now e r = (Inr u, r', fx) \<Longrightarrow> mid r' = None"
  by (auto simp: split_now_def Let_def split: if_splits dest: close_with_delta_Inr)

lemma on_msg_inv: "orch_inv s \<Longrightarrow> orch_inv (fst (snd (on_msg e msg s)))"
proof -
  assume inv: "orch_inv s"
  obtain v d' where p: "process (now e) msg (detector s) = (v, d')"
    by (cases "process (now e) msg (detector s)")
  obtain res r' fx where sn: "split_now e (recorder s) = (res, r', fx)"
    by (cases "split_now e (recorder s)") auto
  obtain res2 r2 fx2 where fd: "feed e msg (recorder s) = (res2, r2, fx2)"
    by (cases "feed e msg (recorder s)") auto
  have i1: "session_inv r'" using split_now_inv[of "recorder s" e] inv sn by (simp add: orch_inv_def)
  have i2: "session_inv r2" using feed_inv[of "recorder s" e msg] inv fd by (simp add: orch_inv_def)
  have m1: "res = Inr u \<Longrightarrow> mid r' = None" for u using split_now_Inr[of e "recorder s" u r' fx] sn by simp
  have m2: "paused s \<Longrightarrow> r' = recorder s"
    using inv sn split_now_no_session[of "recorder s" e] by (simp add: orch_inv_def)
  show ?thesis
    using inv i1 i2 m1 m2
    by (cases res) (auto simp: on_msg_def p sn fd orch_inv_def Let_def)
qed

lemma idle_watchdog_inv: "orch_inv s \<Longrightarrow> orch_inv (fst (idle_watchdog e s))"
  using stop_if_idle_inv[of "recorder s" e IDLE_TIMEOUT_SECONDS]
    stop_if_idle_no_session[of "recorder s" e IDLE_TIMEOUT_SECONDS]
  by (cases "stop_if_idle e IDLE_TIMEOUT_SECONDS (recorder s)")
     (auto simp: idle_watchdog_def orch_inv_def)

lemma disconnect_inv: "orch_inv s \<Longrightarrow> orch_inv (fst (snd (disconnect e s)))"
  using force_close_inv[of "recorder s" e] force_close_no_session[of "recorder s" e]
  by (cases "force_close e (recorder s)") (auto simp: disconnect_def orch_inv_def)

lemma reachable_orch_inv: "reachable s \<Longrightarrow> orch_inv s"
proof (induction rule: reachable.induct)
  case reach_init
  show ?case by (simp add: orch_inv_def init_orchestrator_def init_inv)
qed (simp_all add: on_msg_inv idle_watchdog_inv disconnect_inv)

lemma paused_drops:
  assumes "paused s" "mid (recorder s) = None"
  shows "recorder (fst (snd (on_msg e msg s))) = recorder s"
    and "snd (snd (on_msg e msg s)) = []"
    and "\<not> toggle_pause (fst (process (now e) msg (detector s))) \<Longrightarrow>
           on_msg e msg s = (Inr (), s\<lparr>detector := snd (process (now e) msg (detector s))\<rparr>, [])"
  using assms split_now_no_session[of "recorder s" e]
  by (cases "process (now e) msg (detector s)"; auto simp: on_msg_def Let_def)+

text \<open>
  Claim C4: in every state the orchestrator reaches (by messages, watchdog rounds and
  disconnects, whether or not a step raised), paused implies that no session is open.
  In such a state no message opens one: the callback leaves the recorder as it is and
  performs no file operation, and a message that is not the completion of the pause
  chord only updates the detector.
\<close>

theorem C4_paused_implies_no_session:
  assumes "reachable s" "paused s"
  shows "no_session (recorder s)
       \<and> recorder (fst (snd (on_msg e msg s))) = recorder s
       \<and> snd (snd (on_msg e msg s)) = []
       \<and> (\<not> toggle_pause (fst (process (now e) msg (detector s))) \<longrightarrow>
            on_msg e msg s = (Inr (), s\<lparr>detector := snd (process (now e) msg (detector s))\<rparr>, []))"
proof -
  have inv: "orch_inv s" using assms(1) by (rule reachable_orch_inv)
  then have m: "mid (recorder s) = None" using assms(2) by (simp add: orch_inv_def)
  have "no_session (recorder s)"
    using inv m by (auto simp: orch_inv_def session_inv_def open_session_def)
  then show ?thesis using paused_drops[OF assms(2) m] by blast
qed

lemma reachable_play: "reachable s \<Longrightarrow> reachable (play s evs)"
proof (induction evs arbitrary: s)
  case Nil
  then show ?case by (simp add: play_def)
next
  case (Cons ev evs)
  have "reachable (fst (snd (on_msg (env_at (fst ev)) (snd ev) s)))"
    using Cons.prems by (rule reach_msg)
  from Cons.IH[OF this] show ?case by (simp add: play_def)
qed

lemma paused_example_facts:
  "paused paused_example" "recorder paused_example = init_recorder"
  by (simp_all add: paused_example_def play_def on_msg_def init_orchestrator_def detector_defs
      toggle_pause_def do_split_def suppress_def env_at_def feed_def start_def init_recorder_def
      append_with_delta_def seconds_to_ticks_eq spec_ticks_examples split_now_def
      close_with_delta_def save_and_reset_def DEFAULT_TEMPO_US_PER_BEAT_def
      del: not_None_eq)

theorem C4_paused_implies_no_session_witness:
  "reachable paused_example \<and> paused paused_example \<and> no_session (recorder paused_example)
   \<and> recorder (fst (snd (on_msg (env_at 2) (NoteOn 60 100) paused_example))) = init_recorder"
proof -
  have r: "reachable paused_example"
    unfolding paused_example_def by (rule reachable_play [OF reach_init])
  from C4_paused_implies_no_session [OF r paused_example_facts(1), of "env_at 2" "NoteOn 60 100"]
  show ?thesis using r paused_example_facts by simp
qed

end
